theory Spec2Isabelle
  imports Complex_Main
begin

section \<open>Stochastic CFLP: the dataset reader of \<^verbatim>\<open>data.py\<close> and the driver of \<^verbatim>\<open>main.py\<close>\<close>

text \<open>
  The development follows \<^verbatim>\<open>src/Facility location/src/data.py\<close> function by function.
  Conventions of the embedding:
  \<^item> the text of the dataset file is a \<open>string\<close>; a character stands for its code point
    (below 256);
  \<^item> Python's unbounded \<open>int\<close> is \<open>int\<close>; a Python \<open>float\<close> is a real number or the
    negative zero (\<open>pyfloat\<close>) where its sign bit can matter, and a \<open>real\<close> where it cannot;
    rounding, overflow, infinities and NaN are outside the model;
  \<^item> every exception of the source is a value of \<open>error\<close>, and a function that can raise
    returns \<open>error + 'a\<close>;
  \<^item> NumPy's global random generator is a stream of standard normal variates
    (\<open>nat \<Rightarrow> real\<close>) that is threaded through the sampling code.
\<close>

subsection \<open>Exceptions\<close>

datatype error =
    StopIteration
  | ValueError
  | IndexError
  | FrozenInstanceError
  | NonFiniteLiteral

text \<open>
  \<open>NonFiniteLiteral\<close> is not a Python exception: it marks the tokens \<^verbatim>\<open>inf\<close>,
  \<^verbatim>\<open>infinity\<close> and \<^verbatim>\<open>nan\<close>, which \<^verbatim>\<open>float()\<close> accepts and which have no value in
  \<open>real\<close>. No theorem below draws a conclusion from it.
\<close>

subsection \<open>\<^verbatim>\<open>word_reader\<close>: lines of the file, then \<^verbatim>\<open>line.split()\<close>\<close>

text \<open>
  \<^verbatim>\<open>str.split()\<close> without argument separates at runs of whitespace: the characters for
  which \<^verbatim>\<open>str.isspace\<close> holds. Below code point 256 these are 9 to 13, 28 to 32, 133
  and 160.
\<close>

definition is_space :: "char \<Rightarrow> bool" where
  "is_space c \<longleftrightarrow> c \<in> set [CHR 0x09, CHR 0x0A, CHR 0x0B, CHR 0x0C, CHR 0x0D,
                          CHR 0x1C, CHR 0x1D, CHR 0x1E, CHR 0x1F, CHR 0x20,
                          CHR 0x85, CHR 0xA0]"

text \<open>\<open>emit cur\<close> is the word collected so far, if there is one.\<close>

definition emit :: "string \<Rightarrow> string list" where
  "emit cur = (if cur = [] then [] else [cur])"

fun split_from :: "string \<Rightarrow> string \<Rightarrow> string list" where
  "split_from cur [] = emit cur"
| "split_from cur (c # cs) =
     (if is_space c then emit cur @ split_from [] cs else split_from (cur @ [c]) cs)"

definition str_split :: "string \<Rightarrow> string list" where
  "str_split s = split_from [] s"

text \<open>
  The file is opened in text mode with the default \<^verbatim>\<open>newline=None\<close>: \<^verbatim>\<open>\r\n\<close> and a lone
  \<^verbatim>\<open>\r\<close> are translated to \<^verbatim>\<open>\n\<close>, and iterating the file yields the lines, each with its
  terminating \<^verbatim>\<open>\n\<close> (the last line may lack one).
\<close>

fun universal_newlines :: "string \<Rightarrow> string" where
  "universal_newlines [] = []"
| "universal_newlines (c # cs) =
     (if c = CHR 0x0D then
        (case cs of
           [] \<Rightarrow> [CHR 0x0A]
         | d # ds \<Rightarrow> if d = CHR 0x0A then CHR 0x0A # universal_newlines ds
                    else CHR 0x0A # universal_newlines cs)
      else c # universal_newlines cs)"

fun lines_from :: "string \<Rightarrow> string \<Rightarrow> string list" where
  "lines_from cur [] = emit cur"
| "lines_from cur (c # cs) =
     (if c = CHR 0x0A then (cur @ [c]) # lines_from [] cs else lines_from (cur @ [c]) cs)"

definition file_lines :: "string \<Rightarrow> string list" where
  "file_lines content = lines_from [] (universal_newlines content)"

text \<open>
  \<^verbatim>\<open>word_reader\<close> is a generator; the list below is the sequence of words it yields, in
  order. \<^verbatim>\<open>next(word)\<close> takes the head of what is left and raises \<^verbatim>\<open>StopIteration\<close> when
  nothing is left.
\<close>

definition word_reader :: "string \<Rightarrow> string list" where
  "word_reader content = concat (map str_split (file_lines content))"

definition next_word :: "string list \<Rightarrow> error + (string \<times> string list)" where
  "next_word ws = (case ws of [] \<Rightarrow> Inl StopIteration | w # ws' \<Rightarrow> Inr (w, ws'))"

subsection \<open>Floats with a sign bit\<close>

text \<open>
  \<open>Float x\<close> is the float of value \<open>x\<close> (\<open>Float 0\<close> is \<^verbatim>\<open>0.0\<close>) and \<open>Minus_zero\<close> is
  \<^verbatim>\<open>-0.0\<close>: equal to zero in every comparison, but with its sign bit set. The sign bit of a
  product is set exactly when the sign bits of the factors differ.
\<close>

datatype pyfloat = Float real | Minus_zero

definition float_value :: "pyfloat \<Rightarrow> real" where
  "float_value a = (case a of Float x \<Rightarrow> x | Minus_zero \<Rightarrow> 0)"

definition signbit :: "pyfloat \<Rightarrow> bool" where
  "signbit a = (case a of Float x \<Rightarrow> x < 0 | Minus_zero \<Rightarrow> True)"

definition float_mul :: "pyfloat \<Rightarrow> pyfloat \<Rightarrow> pyfloat" where
  "float_mul a b =
     (if float_value a * float_value b = 0
      then (if signbit a = signbit b then Float 0 else Minus_zero)
      else Float (float_value a * float_value b))"

subsection \<open>\<^verbatim>\<open>int()\<close> and \<^verbatim>\<open>float()\<close> on a word\<close>

definition digit_of :: "char \<Rightarrow> nat option" where
  "digit_of c = map_of (zip ''0123456789'' [0, 1, 2, 3, 4, 5, 6, 7, 8, 9]) c"

text \<open>
  A digit part is \<^verbatim>\<open>digit (["_"] digit)*\<close>: digits, with single underscores allowed
  between two digits. \<open>digitpart\<close> returns the digits, most significant first.
\<close>

fun digitpart :: "string \<Rightarrow> nat list option" where
  "digitpart [] = None"
| "digitpart [c] = (case digit_of c of None \<Rightarrow> None | Some d \<Rightarrow> Some [d])"
| "digitpart (c # c' # cs) =
     (case digit_of c of
        None \<Rightarrow> None
      | Some d \<Rightarrow>
          (case (if c' = CHR ''_'' then digitpart cs else digitpart (c' # cs)) of
             None \<Rightarrow> None
           | Some ds \<Rightarrow> Some (d # ds)))"

definition digits_value :: "nat list \<Rightarrow> nat" where
  "digits_value ds = foldl (\<lambda>acc d. 10 * acc + d) 0 ds"

text \<open>
  \<open>signed s\<close> takes an optional sign off the front: the factor and the rest. \<^verbatim>\<open>int()\<close> reads
  \<^verbatim>\<open>[sign] digitpart\<close> in base 10 (the length limit that recent interpreters put on the
  digits is not modelled).
\<close>

definition signed :: "string \<Rightarrow> int \<times> string" where
  "signed s =
     (case s of
        [] \<Rightarrow> (1, [])
      | c # cs \<Rightarrow> if c = CHR ''-'' then (- 1, cs) else if c = CHR ''+'' then (1, cs) else (1, s))"

definition py_int :: "string \<Rightarrow> error + int" where
  "py_int w =
     (case signed w of (sg, body) \<Rightarrow>
        (case digitpart body of
           None \<Rightarrow> Inl ValueError
         | Some ds \<Rightarrow> Inr (sg * int (digits_value ds))))"

text \<open>
  \<^verbatim>\<open>float()\<close> reads \<^verbatim>\<open>[sign] number [exponent]\<close> with
  \<^verbatim>\<open>number ::= [digitpart] "." digitpart | digitpart ["."]\<close> and
  \<^verbatim>\<open>exponent ::= ("e" | "E") [sign] digitpart\<close>; the value is the decimal value, unrounded,
  and a zero written with a minus sign is the negative zero.
\<close>

definition lower :: "char \<Rightarrow> char" where
  "lower c =
     (if c = CHR ''I'' then CHR ''i'' else if c = CHR ''N'' then CHR ''n''
      else if c = CHR ''F'' then CHR ''f'' else if c = CHR ''A'' then CHR ''a''
      else if c = CHR ''T'' then CHR ''t'' else if c = CHR ''Y'' then CHR ''y''
      else c)"

definition non_finite :: "string \<Rightarrow> bool" where
  "non_finite body \<longleftrightarrow> map lower body \<in> set [''inf'', ''infinity'', ''nan'']"

definition is_exp_mark :: "char \<Rightarrow> bool" where
  "is_exp_mark c \<longleftrightarrow> c = CHR ''e'' \<or> c = CHR ''E''"

definition is_point :: "char \<Rightarrow> bool" where
  "is_point c \<longleftrightarrow> c = CHR ''.''"

text \<open>\<open>number\<close> returns the digits before and after the point.\<close>

definition number :: "string \<Rightarrow> (nat list \<times> nat list) option" where
  "number s =
     (let ip = takeWhile (\<lambda>c. \<not> is_point c) s; rest = dropWhile (\<lambda>c. \<not> is_point c) s
      in case rest of
           [] \<Rightarrow> (case digitpart ip of None \<Rightarrow> None | Some ds \<Rightarrow> Some (ds, []))
         | p # fp \<Rightarrow>
             if ip = [] then (case digitpart fp of None \<Rightarrow> None | Some fs \<Rightarrow> Some ([], fs))
             else if fp = [] then (case digitpart ip of None \<Rightarrow> None | Some ds \<Rightarrow> Some (ds, []))
             else (case digitpart ip of
                     None \<Rightarrow> None
                   | Some ds \<Rightarrow> (case digitpart fp of None \<Rightarrow> None | Some fs \<Rightarrow> Some (ds, fs))))"

definition exponent :: "string \<Rightarrow> int option" where
  "exponent s =
     (case s of
        [] \<Rightarrow> Some 0
      | m # e \<Rightarrow>
          (case signed e of (sg, body) \<Rightarrow>
             (case digitpart body of None \<Rightarrow> None | Some ds \<Rightarrow> Some (sg * int (digits_value ds)))))"

definition py_float :: "string \<Rightarrow> error + pyfloat" where
  "py_float w =
     (case signed w of (sg, body) \<Rightarrow>
        if non_finite body then Inl NonFiniteLiteral
        else
          (case number (takeWhile (\<lambda>c. \<not> is_exp_mark c) body) of
             None \<Rightarrow> Inl ValueError
           | Some (ds, fs) \<Rightarrow>
               (case exponent (dropWhile (\<lambda>c. \<not> is_exp_mark c) body) of
                  None \<Rightarrow> Inl ValueError
                | Some e \<Rightarrow>
                    (let m = (real (digits_value ds) + real (digits_value fs) / 10 ^ length fs)
                             * 10 powi e
                     in if sg < 0 \<and> m = 0 then Inr Minus_zero
                        else Inr (Float (real_of_int sg * m))))))"

subsection \<open>Sequencing of operations that can raise\<close>

definition bind :: "error + 'a \<Rightarrow> ('a \<Rightarrow> error + 'b) \<Rightarrow> error + 'b" where
  "bind m f = (case m of Inl e \<Rightarrow> Inl e | Inr x \<Rightarrow> f x)"

subsection \<open>NumPy arrays\<close>

text \<open>
  An array is its shape and its elements in row-major order. One-dimensional arrays whose
  shape plays no role (\<^verbatim>\<open>demands\<close>, \<^verbatim>\<open>capacities\<close>, \<^verbatim>\<open>fixed_costs\<close>, the index ranges) are
  plain lists.
\<close>

datatype 'a ndarray = NDArray (shape: "nat list") (flat: "'a list")

text \<open>
  \<^verbatim>\<open>np.array\<close> of a list of rows: the empty list gives the one-dimensional empty array of
  shape \<^verbatim>\<open>(0,)\<close>; rows of one length \<open>n\<close> give shape \<^verbatim>\<open>(len(rows), n)\<close>; rows of different
  lengths are refused.
\<close>

definition np_array2 :: "'a list list \<Rightarrow> error + 'a ndarray" where
  "np_array2 rows =
     (case rows of
        [] \<Rightarrow> Inr (NDArray [0] [])
      | r # rs \<Rightarrow>
          if list_all (\<lambda>r'. length r' = length r) rs
          then Inr (NDArray [length rows, length r] (concat rows))
          else Inl ValueError)"

text \<open>
  \<^verbatim>\<open>np.array\<close> of a list of Python integers, on a platform whose C \<^verbatim>\<open>long\<close> has 64 bits.
  Each integer is given the first type that holds it, \<^verbatim>\<open>int64\<close>, then \<^verbatim>\<open>uint64\<close>, then
  \<^verbatim>\<open>object\<close>, and the array takes the common type: \<^verbatim>\<open>int64\<close> and \<^verbatim>\<open>uint64\<close> together
  give \<^verbatim>\<open>float64\<close>, anything with \<^verbatim>\<open>object\<close> gives \<^verbatim>\<open>object\<close>. Only a \<^verbatim>\<open>float64\<close>
  array changes values: each integer becomes the nearest double, ties to even.
  \<open>np_array_int\<close> returns the values of the array, which are integers in every case.
\<close>

definition fits_int64 :: "int \<Rightarrow> bool" where
  "fits_int64 x \<longleftrightarrow> - (2 ^ 63) \<le> x \<and> x < 2 ^ 63"

definition fits_uint64 :: "int \<Rightarrow> bool" where
  "fits_uint64 x \<longleftrightarrow> 0 \<le> x \<and> x < 2 ^ 64"

text \<open>The number of bits by which \<open>m\<close> exceeds the 53 bits of a double's significand.\<close>

function excess_bits :: "nat \<Rightarrow> nat" where
  "excess_bits m = (if m < 2 ^ 53 then 0 else Suc (excess_bits (m div 2)))"
  by pat_completeness auto
termination
  by (relation "measure (\<lambda>m. m)") auto

declare excess_bits.simps [simp del]

definition float64_of_int :: "int \<Rightarrow> int" where
  "float64_of_int x =
     (let m = nat \<bar>x\<bar>; e = excess_bits m; q = m div 2 ^ e; r = m mod 2 ^ e;
          q' = (if 2 ^ e < 2 * r \<or> (2 * r = 2 ^ e \<and> odd q) then q + 1 else q)
      in sgn x * int (q' * 2 ^ e))"

definition np_array_int :: "int list \<Rightarrow> int list" where
  "np_array_int xs =
     (if list_all fits_int64 xs then xs
      else if list_all (\<lambda>x. fits_int64 x \<or> fits_uint64 x) xs
      then (if list_ex fits_int64 xs then map float64_of_int xs else xs)
      else xs)"

text \<open>
  \<^verbatim>\<open>a.reshape(d0, d1)\<close> of a one-dimensional array: a negative dimension is the unknown
  one and is inferred from the size; two unknown dimensions, an unknown dimension beside a
  zero or a non-divisor, and a size that is not \<open>d0 * d1\<close> raise \<^verbatim>\<open>ValueError\<close>.
\<close>

definition np_reshape2 :: "'a list \<Rightarrow> int \<Rightarrow> int \<Rightarrow> error + 'a ndarray" where
  "np_reshape2 xs d0 d1 =
     (let n = int (length xs) in
      if d0 < 0 \<and> d1 < 0 then Inl ValueError
      else if d0 < 0 then
        (if d1 = 0 \<or> n mod d1 \<noteq> 0 then Inl ValueError
         else Inr (NDArray [nat (n div d1), nat d1] xs))
      else if d1 < 0 then
        (if d0 = 0 \<or> n mod d0 \<noteq> 0 then Inl ValueError
         else Inr (NDArray [nat d0, nat (n div d0)] xs))
      else if n \<noteq> d0 * d1 then Inl ValueError
      else Inr (NDArray [nat d0, nat d1] xs))"

text \<open>
  \<^verbatim>\<open>np.transpose\<close> of a two-dimensional array of shape \<open>(r, c)\<close>: shape \<open>(c, r)\<close>, and the
  element at \<open>[i, j]\<close> is the old element at \<open>[j, i]\<close>. Arrays of lower rank are unchanged;
  the program transposes no array of higher rank.
\<close>

definition np_transpose :: "'a ndarray \<Rightarrow> 'a ndarray" where
  "np_transpose a =
     (case shape a of
        [r, c] \<Rightarrow>
          NDArray [c, r] (concat (map (\<lambda>i. map (\<lambda>j. flat a ! (j * c + i)) [0..<r]) [0..<c]))
      | _ \<Rightarrow> a)"

text \<open>
  \<^verbatim>\<open>a[i, j]\<close> with nonnegative indices, as the program uses it: an element of a
  two-dimensional array, \<^verbatim>\<open>IndexError\<close> out of range or on an array of lower rank.
\<close>

definition getitem2 :: "'a ndarray \<Rightarrow> nat \<Rightarrow> nat \<Rightarrow> error + 'a" where
  "getitem2 a i j =
     (case shape a of
        [r, c] \<Rightarrow> if i < r \<and> j < c then Inr (flat a ! (i * c + j)) else Inl IndexError
      | _ \<Rightarrow> Inl IndexError)"

definition np_arange :: "int \<Rightarrow> nat list" where
  "np_arange n = [0..<nat n]"

subsection \<open>\<^verbatim>\<open>generate_scenarios\<close>\<close>

text \<open>
  The state of NumPy's global generator is the stream of standard normal variates it will
  produce. \<^verbatim>\<open>np.random.normal(loc, scale)\<close> raises \<^verbatim>\<open>ValueError\<close> (\<^verbatim>\<open>scale < 0\<close>) when the sign
  bit of the scale is set, negative zero included, and otherwise returns \<open>loc + scale * z\<close>
  for the next variate \<open>z\<close>. The sample is used only in a comparison with 0, so it is a
  \<open>real\<close>.
\<close>

type_synonym rng = "nat \<Rightarrow> real"

definition np_random_normal :: "pyfloat \<Rightarrow> pyfloat \<Rightarrow> rng \<Rightarrow> error + (real \<times> rng)" where
  "np_random_normal loc scale g =
     (if signbit scale then Inl ValueError
      else Inr (float_value loc + float_value scale * g 0, \<lambda>n. g (Suc n)))"

text \<open>
  Python's \<^verbatim>\<open>max(a, b)\<close> keeps \<open>a\<close> unless \<open>b > a\<close>; with \<open>a = 0\<close> the result is never the
  negative zero.
\<close>

definition py_max2 :: "real \<Rightarrow> real \<Rightarrow> real" where
  "py_max2 a b = (if b > a then b else a)"

text \<open>The inner comprehension: one row, \<^verbatim>\<open>for mu in demands\<close>.\<close>

fun sample_row :: "pyfloat list \<Rightarrow> pyfloat \<Rightarrow> rng \<Rightarrow> error + (real list \<times> rng)" where
  "sample_row [] variance_factor g = Inr ([], g)"
| "sample_row (mu # mus) variance_factor g =
     bind (np_random_normal mu (float_mul variance_factor mu) g) (\<lambda>(x, g1).
     bind (sample_row mus variance_factor g1) (\<lambda>(xs, g2).
     Inr (py_max2 0 x # xs, g2)))"

text \<open>The outer comprehension: \<^verbatim>\<open>for _ in range(num_scenarios)\<close>.\<close>

fun sample_rows ::
  "nat \<Rightarrow> pyfloat list \<Rightarrow> pyfloat \<Rightarrow> rng \<Rightarrow> error + (real list list \<times> rng)" where
  "sample_rows 0 demands variance_factor g = Inr ([], g)"
| "sample_rows (Suc k) demands variance_factor g =
     bind (sample_row demands variance_factor g) (\<lambda>(row, g1).
     bind (sample_rows k demands variance_factor g1) (\<lambda>(rows, g2).
     Inr (row # rows, g2)))"

definition generate_scenarios ::
  "pyfloat list \<Rightarrow> int \<Rightarrow> pyfloat \<Rightarrow> rng \<Rightarrow> error + (real ndarray \<times> rng)" where
  "generate_scenarios demands num_scenarios variance_factor g =
     bind (sample_rows (nat num_scenarios) demands variance_factor g) (\<lambda>(rows, g1).
     bind (np_array2 rows) (\<lambda>scenarios.
     Inr (scenarios, g1)))"

subsection \<open>\<^verbatim>\<open>read_dataset\<close>\<close>

record Data =
  I :: "nat list"
  J :: "nat list"
  S :: "nat list"
  demands :: "pyfloat list"
  scenarios :: "real ndarray"
  capacities :: "int list"
  fixed_costs :: "int list"
  shipment_costs :: "pyfloat ndarray"
  max_demand_sum_over_scenario :: real

text \<open>The loop \<^verbatim>\<open>for _ in range(num_facilities)\<close> that reads capacity and fixed cost.\<close>

fun read_facilities ::
  "nat \<Rightarrow> string list \<Rightarrow> error + ((int list \<times> int list) \<times> string list)" where
  "read_facilities 0 word = Inr (([], []), word)"
| "read_facilities (Suc n) word =
     bind (next_word word) (\<lambda>(w1, word1).
     bind (py_int w1) (\<lambda>capacity.
     bind (next_word word1) (\<lambda>(w2, word2).
     bind (py_int w2) (\<lambda>fixed_cost.
     bind (read_facilities n word2) (\<lambda>((cs, fs), word3).
     Inr ((capacity # cs, fixed_cost # fs), word3))))))"

text \<open>The comprehension \<^verbatim>\<open>[float(next(word)) for _ in range(n)]\<close>.\<close>

fun read_floats :: "nat \<Rightarrow> string list \<Rightarrow> error + (pyfloat list \<times> string list)" where
  "read_floats 0 word = Inr ([], word)"
| "read_floats (Suc n) word =
     bind (next_word word) (\<lambda>(w, word1).
     bind (py_float w) (\<lambda>x.
     bind (read_floats n word1) (\<lambda>(xs, word2).
     Inr (x # xs, word2))))"

text \<open>\<^verbatim>\<open>sum(scenarios[s, i] for i in I)\<close>: the running total starts at 0.\<close>

fun sum_from :: "real ndarray \<Rightarrow> nat \<Rightarrow> nat list \<Rightarrow> real \<Rightarrow> error + real" where
  "sum_from a s [] acc = Inr acc"
| "sum_from a s (i # idx) acc = bind (getitem2 a s i) (\<lambda>x. sum_from a s idx (acc + x))"

text \<open>
  \<^verbatim>\<open>max(... for s in S)\<close>: \<^verbatim>\<open>ValueError\<close> on an empty sequence; otherwise the first item,
  replaced by each later item that is greater.
\<close>

fun max_from :: "real ndarray \<Rightarrow> nat list \<Rightarrow> nat list \<Rightarrow> real \<Rightarrow> error + real" where
  "max_from a idx [] m = Inr m"
| "max_from a idx (s # ss) m =
     bind (sum_from a s idx 0) (\<lambda>v. max_from a idx ss (if v > m then v else m))"

definition max_of_sums :: "real ndarray \<Rightarrow> nat list \<Rightarrow> nat list \<Rightarrow> error + real" where
  "max_of_sums a idx ss =
     (case ss of
        [] \<Rightarrow> Inl ValueError
      | s # ss' \<Rightarrow> bind (sum_from a s idx 0) (\<lambda>v. max_from a idx ss' v))"

text \<open>
  \<open>read_dataset content num_scenarios variance_factor g\<close>: \<open>content\<close> is the text of the
  file at \<^verbatim>\<open>file_path\<close>, \<open>g\<close> the state of the random generator. The \<^verbatim>\<open>print\<close> calls write
  to standard output only and are left out. The entries of the scenario matrix are never
  the negative zero, so they are \<open>real\<close>.
\<close>

definition read_dataset :: "string \<Rightarrow> int \<Rightarrow> pyfloat \<Rightarrow> rng \<Rightarrow> error + (Data \<times> rng)" where
  "read_dataset content num_scenarios variance_factor g =
     bind (next_word (word_reader content)) (\<lambda>(w1, word1).
     bind (py_int w1) (\<lambda>num_facilities.
     bind (next_word word1) (\<lambda>(w2, word2).
     bind (py_int w2) (\<lambda>num_customers.
     bind (read_facilities (nat num_facilities) word2) (\<lambda>((caps, fcs), word3).
     bind (read_floats (nat num_customers) word3) (\<lambda>(dem, word4).
     bind (read_floats (nat (num_facilities * num_customers)) word4) (\<lambda>(costs, word5).
     bind (np_reshape2 costs num_facilities num_customers) (\<lambda>costs_matrix.
     bind (generate_scenarios dem num_scenarios variance_factor g) (\<lambda>(scen, g1).
     bind (max_of_sums scen (np_arange num_customers) (np_arange num_scenarios)) (\<lambda>m.
     Inr (\<lparr>I = np_arange num_customers,
           J = np_arange num_facilities,
           S = np_arange num_scenarios,
           demands = dem,
           scenarios = scen,
           capacities = np_array_int caps,
           fixed_costs = np_array_int fcs,
           shipment_costs = np_transpose costs_matrix,
           max_demand_sum_over_scenario = m\<rparr>, g1)))))))))))"

subsection \<open>The solve, as far as the specification fixes its result\<close>








subsection \<open>The \<^verbatim>\<open>Data\<close> class and the driver of \<^verbatim>\<open>main.py\<close>\<close>















subsection \<open>The bookkeeping of the solve\<close>















subsection \<open>Line structure does not matter\<close>

lemma split_from_space:
  "is_space c \<Longrightarrow> split_from cur (xs @ c # ys) = split_from cur xs @ split_from [] ys"
  by (induction xs arbitrary: cur) simp_all

lemma newline_is_space: "is_space (CHR 0x0A)"
  by (simp add: is_space_def)

lemma return_is_space: "is_space (CHR 0x0D)"
  by (simp add: is_space_def)

lemma split_from_snoc_space: "is_space c \<Longrightarrow> split_from cur (xs @ [c]) = split_from cur xs"
  using split_from_space [of c cur xs "[]"] by (simp add: emit_def)

lemma lines_from_split:
  "concat (map str_split (lines_from cur s)) = str_split (cur @ s)"
proof (induction s arbitrary: cur)
  case Nil
  show ?case by (simp add: emit_def str_split_def)
next
  case (Cons c cs)
  show ?case
  proof (cases "c = CHR 0x0A")
    case True
    have "str_split (cur @ c # cs) = split_from [] cur @ split_from [] cs"
      unfolding str_split_def using True newline_is_space by (simp add: split_from_space)
    moreover have "str_split (cur @ [c]) = split_from [] cur"
      unfolding str_split_def using True newline_is_space by (simp add: split_from_snoc_space)
    ultimately show ?thesis
      using True Cons.IH [of "[]"] by (simp add: str_split_def)
  next
    case False
    then show ?thesis using Cons.IH [of "cur @ [c]"] by simp
  qed
qed

lemma split_universal_newlines:
  "split_from cur (universal_newlines s) = split_from cur s"
proof (induction s arbitrary: cur rule: universal_newlines.induct)
  case 1
  show ?case by simp
next
  case (2 c cs)
  show ?case
  proof (cases "c = CHR 0x0D")
    case False
    then show ?thesis using 2 by simp
  next
    case True
    show ?thesis
    proof (cases cs)
      case Nil
      then show ?thesis using True newline_is_space return_is_space by simp
    next
      case (Cons d ds)
      show ?thesis
      proof (cases "d = CHR 0x0A")
        case T: True
        then show ?thesis
          using True Cons 2(1) [of d ds "[]"] newline_is_space return_is_space
          by (simp add: emit_def)
      next
        case F: False
        then show ?thesis
          using True Cons 2(2) [of d ds "[]"] newline_is_space return_is_space
          by simp
      qed
    qed
  qed
qed

lemma word_reader_split: "word_reader content = str_split content"
  by (simp add: word_reader_def file_lines_def lines_from_split)
    (simp add: str_split_def split_universal_newlines)

subsection \<open>Facts about sequencing and sampling\<close>

lemma bind_Inr_iff: "bind m f = Inr y \<longleftrightarrow> (\<exists>x. m = Inr x \<and> f x = Inr y)"
  by (cases m) (simp_all add: bind_def)

lemma bind_Inl_iff: "bind m f = Inl e \<longleftrightarrow> m = Inl e \<or> (\<exists>x. m = Inr x \<and> f x = Inl e)"
  by (cases m) (simp_all add: bind_def)

lemma bind_Inr [simp]: "bind (Inr x) f = f x"
  by (simp add: bind_def)

lemma bind_Inl [simp]: "bind (Inl e) f = Inl e"
  by (simp add: bind_def)

lemma py_max2_max: "py_max2 a b = max a b"
  by (simp add: py_max2_def max_def)

lemma float_value_mul: "float_value (float_mul a b) = float_value a * float_value b"
  by (simp add: float_mul_def float_value_def)

lemma signbit_mul_positive:
  "0 < float_value vf \<Longrightarrow> signbit (float_mul vf mu) = signbit mu"
  by (cases vf; cases mu)
    (auto simp: float_mul_def float_value_def signbit_def mult_less_0_iff zero_less_mult_iff)

lemma sample_row_Inr:
  "sample_row mus vf g = Inr (xs, g') \<Longrightarrow>
     length xs = length mus \<and> g' = (\<lambda>n. g (n + length mus)) \<and>
     (\<forall>c<length mus. xs ! c = py_max2 0 (float_value (mus ! c) + float_value vf * float_value (mus ! c) * g c))"
proof (induction mus arbitrary: g xs g')
  case Nil
  then show ?case by simp
next
  case (Cons mu mus)
  from Cons.prems obtain x g1 ys g2 where
    n: "np_random_normal mu (float_mul vf mu) g = Inr (x, g1)" and
    r: "sample_row mus vf g1 = Inr (ys, g2)" and
    e: "xs = py_max2 0 x # ys" "g' = g2"
    by (auto simp: bind_Inr_iff)
  from n have x: "x = float_value mu + float_value vf * float_value mu * g 0"
    and g1: "g1 = (\<lambda>n. g (Suc n))"
    by (auto simp: np_random_normal_def float_value_mul split: if_splits)
  from Cons.IH [OF r] have ih: "length ys = length mus" "g2 = (\<lambda>n. g1 (n + length mus))"
    "\<forall>c<length mus. ys ! c = py_max2 0 (float_value (mus ! c) + float_value vf * float_value (mus ! c) * g1 c)" by simp_all
  have "\<forall>c<length (mu # mus). xs ! c = py_max2 0 (float_value ((mu # mus) ! c) + float_value vf * float_value ((mu # mus) ! c) * g c)"
  proof (intro allI impI)
    fix c assume "c < length (mu # mus)"
    then show "xs ! c = py_max2 0 (float_value ((mu # mus) ! c) + float_value vf * float_value ((mu # mus) ! c) * g c)"
      using e x ih(3) g1 by (cases c) simp_all
  qed
  then show ?case using e ih g1 by simp
qed

lemma sample_row_Inl:
  "sample_row mus vf g = Inl e \<Longrightarrow> e = ValueError \<and> (\<exists>mu\<in>set mus. signbit (float_mul vf mu))"
proof (induction mus arbitrary: g)
  case Nil
  then show ?case by simp
next
  case (Cons mu mus)
  show ?case
  proof (cases "signbit (float_mul vf mu)")
    case True
    then show ?thesis using Cons.prems by (simp add: np_random_normal_def)
  next
    case False
    then have "sample_row mus vf (\<lambda>n. g (Suc n)) = Inl e"
      using Cons.prems by (auto simp: np_random_normal_def bind_Inl_iff)
    from Cons.IH [OF this] show ?thesis by simp
  qed
qed

lemma sample_row_total:
  "\<forall>mu\<in>set mus. \<not> signbit (float_mul vf mu) \<Longrightarrow> \<exists>xs g'. sample_row mus vf g = Inr (xs, g')"
  using sample_row_Inl [of mus vf g] by (cases "sample_row mus vf g") fastforce+

lemma sample_row_fails:
  "\<exists>mu\<in>set mus. signbit (float_mul vf mu) \<Longrightarrow> sample_row mus vf g = Inl ValueError"
proof (induction mus arbitrary: g)
  case Nil
  then show ?case by simp
next
  case (Cons mu mus)
  show ?case
  proof (cases "signbit (float_mul vf mu)")
    case True
    then show ?thesis by (simp add: np_random_normal_def)
  next
    case False
    then have "\<exists>mu\<in>set mus. signbit (float_mul vf mu)" using Cons.prems by auto
    from Cons.IH [OF this] show ?thesis using False by (simp add: np_random_normal_def)
  qed
qed

lemma sample_rows_Inr:
  "sample_rows k mus vf g = Inr (rows, g') \<Longrightarrow>
     length rows = k \<and> g' = (\<lambda>n. g (n + k * length mus)) \<and>
     (\<forall>r<k. length (rows ! r) = length mus \<and>
        (\<forall>c<length mus. rows ! r ! c
           = py_max2 0 (float_value (mus ! c) + float_value vf * float_value (mus ! c) * g (r * length mus + c))))"
proof (induction k arbitrary: g rows g')
  case 0
  then show ?case by simp
next
  case (Suc k)
  from Suc.prems obtain row g1 rs g2 where
    a: "sample_row mus vf g = Inr (row, g1)" and
    b: "sample_rows k mus vf g1 = Inr (rs, g2)" and
    e: "rows = row # rs" "g' = g2"
    by (auto simp: bind_Inr_iff)
  note ra = sample_row_Inr [OF a]
  note ih = Suc.IH [OF b]
  have g': "g' = (\<lambda>n. g (n + Suc k * length mus))"
    using e ih ra by (simp add: ac_simps)
  have "\<forall>r<Suc k. length (rows ! r) = length mus \<and>
        (\<forall>c<length mus. rows ! r ! c
           = py_max2 0 (float_value (mus ! c) + float_value vf * float_value (mus ! c) * g (r * length mus + c)))"
  proof (intro allI impI)
    fix r assume "r < Suc k"
    show "length (rows ! r) = length mus \<and>
        (\<forall>c<length mus. rows ! r ! c
           = py_max2 0 (float_value (mus ! c) + float_value vf * float_value (mus ! c) * g (r * length mus + c)))"
    proof (cases r)
      case 0
      then show ?thesis using e ra by simp
    next
      case (Suc r')
      then have "r' < k" using \<open>r < Suc k\<close> by simp
      then show ?thesis using Suc e ih ra by (simp add: ac_simps)
    qed
  qed
  then show ?case using e ih g' by simp
qed

lemma sample_rows_Inl:
  "sample_rows k mus vf g = Inl e \<Longrightarrow> e = ValueError \<and> (\<exists>mu\<in>set mus. signbit (float_mul vf mu))"
proof (induction k arbitrary: g)
  case 0
  then show ?case by simp
next
  case (Suc k)
  then show ?case
    by (auto simp: bind_Inl_iff dest: sample_row_Inl)
qed

lemma sample_rows_fails:
  "\<exists>mu\<in>set mus. signbit (float_mul vf mu) \<Longrightarrow> sample_rows (Suc k) mus vf g = Inl ValueError"
  by (simp add: sample_row_fails)

subsection \<open>The scenario matrix\<close>

lemma concat_uniform:
  "\<forall>r<length rows. length (rows ! r) = n \<Longrightarrow>
     length (concat rows) = length rows * n \<and>
     (\<forall>r<length rows. \<forall>c<n. concat rows ! (r * n + c) = rows ! r ! c)"
proof (induction rows)
  case Nil
  show ?case by simp
next
  case (Cons row rows)
  have len: "length row = n" using Cons.prems by auto
  have "\<forall>r<length rows. length (rows ! r) = n" using Cons.prems by auto
  note ih = Cons.IH [OF this]
  have "\<forall>r<length (row # rows). \<forall>c<n. concat (row # rows) ! (r * n + c) = (row # rows) ! r ! c"
  proof (intro allI impI)
    fix r c assume r: "r < length (row # rows)" and c: "c < n"
    show "concat (row # rows) ! (r * n + c) = (row # rows) ! r ! c"
    proof (cases r)
      case 0
      then show ?thesis using len c by (simp add: nth_append)
    next
      case (Suc r')
      then have "r' < length rows" using r by simp
      then have "concat rows ! (r' * n + c) = rows ! r' ! c" using ih c by simp
      then show ?thesis using Suc len by (simp add: nth_append)
    qed
  qed
  then show ?case using len ih by simp
qed

lemma np_array2_uniform:
  assumes "rows \<noteq> []" and "\<forall>r<length rows. length (rows ! r) = n"
  shows "np_array2 rows = Inr (NDArray [length rows, n] (concat rows))"
proof -
  obtain r rs where rows: "rows = r # rs" using assms(1) by (cases rows) auto
  have "length r = n" using assms(2) rows by auto
  moreover have "list_all (\<lambda>r'. length r' = n) rs"
    unfolding list_all_length using assms(2) rows by auto
  ultimately show ?thesis using rows by (simp add: np_array2_def)
qed

lemma generate_scenarios_Inr:
  assumes "generate_scenarios mus k vf g = Inr (a, g')" and "1 \<le> k"
  shows "shape a = [nat k, length mus]"
    and "length (flat a) = nat k * length mus"
    and "g' = (\<lambda>n. g (n + nat k * length mus))"
    and "\<forall>r<nat k. \<forall>c<length mus.
           flat a ! (r * length mus + c)
             = py_max2 0 (float_value (mus ! c) + float_value vf * float_value (mus ! c) * g (r * length mus + c))"
proof -
  from assms(1) obtain rows where
    rs: "sample_rows (nat k) mus vf g = Inr (rows, g')" and arr: "np_array2 rows = Inr a"
    by (auto simp: generate_scenarios_def bind_Inr_iff)
  note f = sample_rows_Inr [OF rs]
  have ne: "rows \<noteq> []" using f assms(2) by auto
  have uni: "\<forall>r<length rows. length (rows ! r) = length mus" using f by simp
  have a: "a = NDArray [length rows, length mus] (concat rows)"
    using np_array2_uniform [OF ne uni] arr by simp
  note cu = concat_uniform [OF uni]
  show "shape a = [nat k, length mus]" using a f by simp
  show "length (flat a) = nat k * length mus" using a f cu by simp
  show "g' = (\<lambda>n. g (n + nat k * length mus))" using f by simp
  show "\<forall>r<nat k. \<forall>c<length mus.
           flat a ! (r * length mus + c)
             = py_max2 0 (float_value (mus ! c) + float_value vf * float_value (mus ! c) * g (r * length mus + c))"
    using a f cu by simp
qed

lemma generate_scenarios_nonpos:
  "k \<le> 0 \<Longrightarrow> generate_scenarios mus k vf g = Inr (NDArray [0] [], g)"
  by (simp add: generate_scenarios_def np_array2_def)

lemma generate_scenarios_Inl:
  "generate_scenarios mus k vf g = Inl e \<Longrightarrow> e = ValueError \<and> (\<exists>mu\<in>set mus. signbit (float_mul vf mu))"
proof -
  assume a: "generate_scenarios mus k vf g = Inl e"
  show ?thesis
  proof (cases "sample_rows (nat k) mus vf g")
    case (Inl e')
    then have "e' = e" using a by (simp add: generate_scenarios_def)
    then show ?thesis using sample_rows_Inl Inl by blast
  next
    case (Inr p)
    obtain rows g1 where p: "p = (rows, g1)" by (cases p)
    note f = sample_rows_Inr [OF Inr [unfolded p]]
    have uni: "\<forall>r<length rows. length (rows ! r) = length mus" using f by simp
    have "\<exists>b. np_array2 rows = Inr b"
    proof (cases "rows = []")
      case True
      then show ?thesis by (simp add: np_array2_def)
    next
      case False
      then show ?thesis using np_array2_uniform [OF False uni] by simp
    qed
    then show ?thesis using a Inr p by (auto simp: generate_scenarios_def)
  qed
qed

text \<open>
  Claim C4, as amended. Scenario generation samples around each nominal demand and clamps at
  zero: whenever \<open>generate_scenarios\<close> returns for a demands vector of length \<open>n\<close> and
  \<open>num_scenarios = k \<ge> 1\<close>, the result has shape \<open>(k, n)\<close>, its entry at \<open>[r, c]\<close> is
  the maximum of 0 and the sample \<open>dem[c] + variance_factor * dem[c] * z\<close> drawn for it (\<open>z\<close>
  being draw number \<open>r * n + c\<close> of the generator), and every entry is nonnegative. The call
  does not return for every input: see the counterexample.
\<close>

theorem generate_scenarios_clamped:
  assumes "generate_scenarios dem k vf g = Inr (a, g')" and "1 \<le> k"
  shows "shape a = [nat k, length dem] \<and>
         (\<forall>r<nat k. \<forall>c<length dem.
            getitem2 a r c
              = Inr (py_max2 0 (float_value (dem ! c)
                                + float_value vf * float_value (dem ! c) * g (r * length dem + c))) \<and>
            0 \<le> py_max2 0 (float_value (dem ! c)
                            + float_value vf * float_value (dem ! c) * g (r * length dem + c)))"
proof -
  note f = generate_scenarios_Inr [OF assms]
  have "\<forall>r<nat k. \<forall>c<length dem.
            getitem2 a r c
              = Inr (py_max2 0 (float_value (dem ! c)
                                + float_value vf * float_value (dem ! c) * g (r * length dem + c)))"
    using f(1) f(4) by (simp add: getitem2_def)
  moreover have "\<And>x. 0 \<le> py_max2 0 x" by (simp add: py_max2_def)
  ultimately show ?thesis using f(1) by simp
qed

theorem generate_scenarios_clamped_witness:
  "generate_scenarios [Float 5, Float 10] 1 (Float (1 / 5)) (\<lambda>n. if n = 0 then 1 else - 6)
     = Inr (NDArray [1, 2] [6, 0], \<lambda>n. - 6)
   \<and> (1::int) \<le> 1
   \<and> shape (NDArray [1, 2] [6, 0 :: real]) = [1, 2]
   \<and> getitem2 (NDArray [1, 2] [6, 0 :: real]) 0 1 = Inr 0"
proof -
  have h: "generate_scenarios [Float 5, Float 10] 1 (Float (1 / 5)) (\<lambda>n. if n = 0 then 1 else - 6)
             = Inr (NDArray [1, 2] [6, 0], \<lambda>n. - 6)"
    by (simp add: generate_scenarios_def np_array2_def np_random_normal_def py_max2_def
        float_mul_def float_value_def signbit_def)
  show ?thesis
    using generate_scenarios_clamped [OF h] h by (simp add: getitem2_def)
qed

text \<open>
  The claim as stated ("for every demands vector and every \<open>num_scenarios\<close> a \<open>k \<times> n\<close>
  matrix is returned") fails: a negative demand makes the call raise \<^verbatim>\<open>ValueError\<close>, and
  \<open>num_scenarios = 0\<close> gives the one-dimensional empty array of shape \<^verbatim>\<open>(0,)\<close>, not a
  \<open>0 \<times> 1\<close> matrix.
\<close>

theorem generate_scenarios_total_counterexample:
  "generate_scenarios [Float (- 1)] 1 (Float (1 / 5)) (\<lambda>n. 0) = Inl ValueError
   \<and> generate_scenarios [Float 5] 0 (Float (1 / 5)) (\<lambda>n. 0) = Inr (NDArray [0] [], \<lambda>n. 0)"
  by (simp add: generate_scenarios_def np_array2_def np_random_normal_def py_max2_def
      float_mul_def float_value_def signbit_def)

text \<open>
  Claim C9, as amended. For a positive \<open>variance_factor\<close> and \<open>num_scenarios = k \<ge> 1\<close>,
  \<open>generate_scenarios\<close> succeeds exactly when no entry of the demands vector has its sign bit
  set: if every entry is positive or the zero \<^verbatim>\<open>0.0\<close>, the call returns an array of shape
  \<open>(k, len(demands))\<close>; if some entry is negative, or is the negative zero \<^verbatim>\<open>-0.0\<close> (which
  compares as nonnegative), the sampling scale \<open>variance_factor * entry\<close> has its sign bit set
  and the call raises \<^verbatim>\<open>ValueError\<close>. For \<open>num_scenarios \<le> 0\<close> nothing is sampled: the call
  returns the empty array of shape \<^verbatim>\<open>(0,)\<close> whatever the demands are.
\<close>

theorem generate_scenarios_precondition:
  assumes "0 < float_value vf"
  shows "(1 \<le> k \<longrightarrow>
            (if \<forall>mu\<in>set dem. \<not> signbit mu
             then \<exists>a g'. generate_scenarios dem k vf g = Inr (a, g') \<and>
                          shape a = [nat k, length dem]
             else generate_scenarios dem k vf g = Inl ValueError)) \<and>
         (k \<le> 0 \<longrightarrow> generate_scenarios dem k vf g = Inr (NDArray [0] [], g))"
proof (intro conjI impI)
  assume k: "1 \<le> k"
  show "if \<forall>mu\<in>set dem. \<not> signbit mu
        then \<exists>a g'. generate_scenarios dem k vf g = Inr (a, g') \<and> shape a = [nat k, length dem]
        else generate_scenarios dem k vf g = Inl ValueError"
  proof (cases "\<forall>mu\<in>set dem. \<not> signbit mu")
    case True
    then have nn: "\<not> (\<exists>mu\<in>set dem. signbit (float_mul vf mu))"
      using assms by (simp add: signbit_mul_positive)
    obtain a g' where r: "generate_scenarios dem k vf g = Inr (a, g')"
      using generate_scenarios_Inl [of dem k vf g] nn
      by (cases "generate_scenarios dem k vf g") fastforce+
    then show ?thesis using True generate_scenarios_Inr(1) [OF r k] by simp
  next
    case False
    then have "\<exists>mu\<in>set dem. signbit (float_mul vf mu)"
      using assms by (simp add: signbit_mul_positive)
    moreover obtain k' where "nat k = Suc k'" using k by (cases "nat k") auto
    ultimately have "sample_rows (nat k) dem vf g = Inl ValueError"
      using sample_rows_fails by simp
    then show ?thesis using False by (simp add: generate_scenarios_def)
  qed
next
  assume "k \<le> 0"
  then show "generate_scenarios dem k vf g = Inr (NDArray [0] [], g)"
    by (rule generate_scenarios_nonpos)
qed

theorem generate_scenarios_precondition_witness:
  "0 < float_value (Float (1 / 5)) \<and> (1::int) \<le> 2 \<and> (0::int) \<le> 0
   \<and> (\<exists>a g'. generate_scenarios [Float 5, Float 0] 2 (Float (1 / 5)) (\<lambda>n. 1) = Inr (a, g')
               \<and> shape a = [2, 2])
   \<and> generate_scenarios [Float 5, Float (- 1)] 2 (Float (1 / 5)) (\<lambda>n. 1) = Inl ValueError
   \<and> generate_scenarios [Float 5, Minus_zero] 2 (Float (1 / 5)) (\<lambda>n. 1) = Inl ValueError
   \<and> generate_scenarios [Float 5, Float (- 1)] 0 (Float (1 / 5)) (\<lambda>n. 1)
       = Inr (NDArray [0] [], \<lambda>n. 1)"
  using generate_scenarios_precondition [of "Float (1 / 5)" 2 "[Float 5, Float 0]" "\<lambda>n. 1"]
    generate_scenarios_precondition [of "Float (1 / 5)" 2 "[Float 5, Float (- 1)]" "\<lambda>n. 1"]
    generate_scenarios_precondition [of "Float (1 / 5)" 2 "[Float 5, Minus_zero]" "\<lambda>n. 1"]
    generate_scenarios_precondition [of "Float (1 / 5)" 0 "[Float 5, Float (- 1)]" "\<lambda>n. 1"]
  by (simp add: numeral_2_eq_2 float_value_def signbit_def)

text \<open>
  The claim as stated fails on both sides. It ranges over every \<open>num_scenarios\<close>, and with
  \<open>num_scenarios = 0\<close> nothing is sampled, so a negative demand does not make the call fail and
  what is returned is the empty array of shape \<^verbatim>\<open>(0,)\<close>. And the demand word \<^verbatim>\<open>-0\<close> is the
  float \<^verbatim>\<open>-0.0\<close>, which is nonnegative in every comparison, yet the call raises on it.
\<close>

theorem generate_scenarios_precondition_counterexample:
  "generate_scenarios [Float (- 1)] 0 (Float (1 / 5)) (\<lambda>n. 0) = Inr (NDArray [0] [], \<lambda>n. 0)
   \<and> py_float ''-0'' = Inr Minus_zero
   \<and> 0 \<le> float_value Minus_zero
   \<and> generate_scenarios [Minus_zero] 1 (Float (1 / 5)) (\<lambda>n. 0) = Inl ValueError"
  by (simp add: generate_scenarios_def np_array2_def np_random_normal_def float_mul_def
      float_value_def signbit_def py_float_def signed_def non_finite_def lower_def number_def
      exponent_def is_exp_mark_def is_point_def digit_of_def digits_value_def)

subsection \<open>Reading the words\<close>

lemma next_word_Inr: "next_word ws = Inr (w, ws') \<longleftrightarrow> ws = w # ws'"
  by (cases ws) (auto simp: next_word_def)

lemma read_facilities_Inr:
  "read_facilities n ws = Inr ((cs, fs), ws') \<Longrightarrow>
     length cs = n \<and> length fs = n \<and> 2 * n \<le> length ws \<and> ws' = drop (2 * n) ws \<and>
     (\<forall>j<n. py_int (ws ! (2 * j)) = Inr (cs ! j) \<and> py_int (ws ! (2 * j + 1)) = Inr (fs ! j))"
proof (induction n arbitrary: ws cs fs ws')
  case 0
  then show ?case by simp
next
  case (Suc n)
  from Suc.prems obtain w1 w2 rest c f cs' fs' where
    ws: "ws = w1 # w2 # rest" and c: "py_int w1 = Inr c" and f: "py_int w2 = Inr f" and
    r: "read_facilities n rest = Inr ((cs', fs'), ws')" and e: "cs = c # cs'" "fs = f # fs'"
    by (auto simp: bind_Inr_iff next_word_Inr)
  note ih = Suc.IH [OF r]
  have "\<forall>j<Suc n. py_int (ws ! (2 * j)) = Inr (cs ! j) \<and> py_int (ws ! (2 * j + 1)) = Inr (fs ! j)"
  proof (intro allI impI)
    fix j assume "j < Suc n"
    then show "py_int (ws ! (2 * j)) = Inr (cs ! j) \<and> py_int (ws ! (2 * j + 1)) = Inr (fs ! j)"
      using ws c f e ih by (cases j) simp_all
  qed
  then show ?case using ws e ih by simp
qed

lemma read_floats_Inr:
  "read_floats n ws = Inr (xs, ws') \<Longrightarrow>
     length xs = n \<and> n \<le> length ws \<and> ws' = drop n ws \<and>
     (\<forall>j<n. py_float (ws ! j) = Inr (xs ! j))"
proof (induction n arbitrary: ws xs ws')
  case 0
  then show ?case by simp
next
  case (Suc n)
  from Suc.prems obtain w rest x xs' where
    ws: "ws = w # rest" and x: "py_float w = Inr x" and
    r: "read_floats n rest = Inr (xs', ws')" and e: "xs = x # xs'"
    by (auto simp: bind_Inr_iff next_word_Inr)
  note ih = Suc.IH [OF r]
  have "\<forall>j<Suc n. py_float (ws ! j) = Inr (xs ! j)"
  proof (intro allI impI)
    fix j assume "j < Suc n"
    then show "py_float (ws ! j) = Inr (xs ! j)"
      using ws x e ih by (cases j) simp_all
  qed
  then show ?case using ws e ih by simp
qed

lemma read_dataset_Inr:
  assumes "read_dataset content k vf g = Inr (d, g')"
  obtains w1 w2 rest nf nc caps fcs dem costs cm scen m where
    "word_reader content = w1 # w2 # rest"
    "py_int w1 = Inr nf" "py_int w2 = Inr nc"
    "read_facilities (nat nf) rest = Inr ((caps, fcs), drop (2 * nat nf) rest)"
    "read_floats (nat nc) (drop (2 * nat nf) rest) = Inr (dem, drop (2 * nat nf + nat nc) rest)"
    "read_floats (nat (nf * nc)) (drop (2 * nat nf + nat nc) rest)
       = Inr (costs, drop (2 * nat nf + nat nc + nat (nf * nc)) rest)"
    "np_reshape2 costs nf nc = Inr cm"
    "generate_scenarios dem k vf g = Inr (scen, g')"
    "max_of_sums scen (np_arange nc) (np_arange k) = Inr m"
    "d = \<lparr>I = np_arange nc, J = np_arange nf, S = np_arange k, demands = dem,
          scenarios = scen, capacities = np_array_int caps,
          fixed_costs = np_array_int fcs,
          shipment_costs = np_transpose cm, max_demand_sum_over_scenario = m\<rparr>"
proof -
  from assms obtain w1 word1 nf w2 word2 nc caps fcs word3 dem word4 costs word5 cm scen m where
    a: "next_word (word_reader content) = Inr (w1, word1)" "py_int w1 = Inr nf"
       "next_word word1 = Inr (w2, word2)" "py_int w2 = Inr nc"
       "read_facilities (nat nf) word2 = Inr ((caps, fcs), word3)"
       "read_floats (nat nc) word3 = Inr (dem, word4)"
       "read_floats (nat (nf * nc)) word4 = Inr (costs, word5)"
       "np_reshape2 costs nf nc = Inr cm"
       "generate_scenarios dem k vf g = Inr (scen, g')"
       "max_of_sums scen (np_arange nc) (np_arange k) = Inr m"
       "d = \<lparr>I = np_arange nc, J = np_arange nf, S = np_arange k, demands = dem,
          scenarios = scen, capacities = np_array_int caps,
          fixed_costs = np_array_int fcs,
          shipment_costs = np_transpose cm, max_demand_sum_over_scenario = m\<rparr>"
    unfolding read_dataset_def bind_Inr_iff by (auto simp: bind_Inr_iff)
  have w: "word_reader content = w1 # w2 # word2"
    using a(1) a(3) by (simp add: next_word_Inr)
  have w3: "word3 = drop (2 * nat nf) word2" using read_facilities_Inr [OF a(5)] by simp
  have w4: "word4 = drop (2 * nat nf + nat nc) word2"
    using read_floats_Inr [OF a(6)] w3 by (simp add: add.commute)
  have w5: "word5 = drop (2 * nat nf + nat nc + nat (nf * nc)) word2"
    using read_floats_Inr [OF a(7)] w4 by (simp add: add.commute)
  show ?thesis
    using that [OF w a(2) a(4) a(5) [unfolded w3] a(6) [unfolded w3 w4] a(7) [unfolded w4 w5]
        a(8) a(9) a(10) a(11)] .
qed

subsection \<open>Sums and maxima over the scenario matrix\<close>

lemma sum_from_Inr:
  assumes "shape a = [r, c]" and "s < r" and "\<forall>i\<in>set idx. i < c"
  shows "sum_from a s idx acc = Inr (acc + (\<Sum>i\<leftarrow>idx. flat a ! (s * c + i)))"
  using assms(3)
proof (induction idx arbitrary: acc)
  case Nil
  show ?case by simp
next
  case (Cons i idx)
  have "getitem2 a s i = Inr (flat a ! (s * c + i))"
    using assms(1,2) Cons.prems by (simp add: getitem2_def)
  then show ?case using Cons by (simp add: add.assoc)
qed

lemma max_from_Inr:
  assumes "shape a = [r, c]" and "\<forall>i\<in>set idx. i < c" and "\<forall>s\<in>set ss. s < r"
  shows "max_from a idx ss m
           = Inr (Max (insert m ((\<lambda>s. \<Sum>i\<leftarrow>idx. flat a ! (s * c + i)) ` set ss)))"
  using assms(3)
proof (induction ss arbitrary: m)
  case Nil
  show ?case by simp
next
  case (Cons s ss)
  let ?f = "\<lambda>s. \<Sum>i\<leftarrow>idx. flat a ! (s * c + i)"
  have s: "sum_from a s idx 0 = Inr (?f s)"
    using sum_from_Inr [OF assms(1) _ assms(2), of s 0] Cons.prems by simp
  have "max_from a idx ss (if ?f s > m then ?f s else m)
          = Inr (Max (insert (if ?f s > m then ?f s else m) (?f ` set ss)))"
    using Cons by simp
  moreover have "Max (insert (if ?f s > m then ?f s else m) (?f ` set ss))
                   = Max (insert m (?f ` set (s # ss)))"
  proof -
    have "(if ?f s > m then ?f s else m) = max m (?f s)" by (simp add: max_def)
    moreover have "Max (insert (max m (?f s)) (?f ` set ss))
                     = Max (insert m (insert (?f s) (?f ` set ss)))"
      by (cases "set ss = {}") (simp_all add: max.assoc)
    ultimately show ?thesis by simp
  qed
  ultimately show ?case using s by simp
qed

lemma max_of_sums_Inr:
  assumes "shape a = [r, c]" and "\<forall>i\<in>set idx. i < c" and "\<forall>s\<in>set ss. s < r" and "ss \<noteq> []"
  shows "max_of_sums a idx ss = Inr (Max ((\<lambda>s. \<Sum>i\<leftarrow>idx. flat a ! (s * c + i)) ` set ss))"
proof -
  let ?f = "\<lambda>s. \<Sum>i\<leftarrow>idx. flat a ! (s * c + i)"
  obtain s ss' where ss: "ss = s # ss'" using assms(4) by (cases ss) auto
  have s: "sum_from a s idx 0 = Inr (?f s)"
    using sum_from_Inr [OF assms(1) _ assms(2), of s 0] assms(3) ss by simp
  have "max_from a idx ss' (?f s) = Inr (Max (insert (?f s) (?f ` set ss')))"
    using max_from_Inr [OF assms(1,2)] assms(3) ss by simp
  then show ?thesis using s ss by (simp add: max_of_sums_def)
qed

lemma max_of_sums_nonempty: "max_of_sums a idx ss = Inr m \<Longrightarrow> ss \<noteq> []"
  by (auto simp: max_of_sums_def)

lemma np_arange_nonempty: "np_arange k \<noteq> [] \<longleftrightarrow> 1 \<le> k"
  by (auto simp: np_arange_def)

lemma length_np_arange: "length (np_arange k) = nat k"
  by (simp add: np_arange_def)

lemma set_np_arange: "set (np_arange k) = {i. i < nat k}"
  by (auto simp: np_arange_def)

text \<open>
  Claim C2. For every dataset read, \<open>max_demand_sum_over_scenario\<close> is the maximum, over the
  scenario indices \<open>s\<close> in \<open>S\<close>, of the sum over the customer indices \<open>i\<close> in \<open>I\<close> of the
  scenario demand \<open>scenarios[s, i]\<close>. Here \<open>x s i\<close> is that entry; \<open>S\<close> is not empty, so the
  maximum exists.
\<close>

theorem max_demand_sum_over_scenario_correct:
  assumes "read_dataset content k vf g = Inr (d, g')"
  shows "S d \<noteq> [] \<and>
         (\<exists>x. (\<forall>s\<in>set (S d). \<forall>i\<in>set (I d). getitem2 (scenarios d) s i = Inr (x s i)) \<and>
              max_demand_sum_over_scenario d = Max ((\<lambda>s. \<Sum>i\<leftarrow>I d. x s i) ` set (S d)))"
proof (rule read_dataset_Inr [OF assms], goal_cases)
  case (1 w1 w2 rest nf nc caps fcs dem costs cm scen m)
  have k: "1 \<le> k" using max_of_sums_nonempty [OF 1(9)] by (simp add: np_arange_nonempty)
  have n: "length dem = nat nc" using read_floats_Inr [OF 1(5)] by simp
  have sh: "shape scen = [nat k, nat nc]"
    using generate_scenarios_Inr(1) [OF 1(8) k] n by simp
  define x where "x = (\<lambda>s i. flat scen ! (s * nat nc + i))"
  have "max_of_sums scen (np_arange nc) (np_arange k)
          = Inr (Max ((\<lambda>s. \<Sum>i\<leftarrow>np_arange nc. x s i) ` set (np_arange k)))"
    unfolding x_def using k
    by (intro max_of_sums_Inr [OF sh]) (simp_all add: set_np_arange np_arange_nonempty)
  then have m: "m = Max ((\<lambda>s. \<Sum>i\<leftarrow>np_arange nc. x s i) ` set (np_arange k))"
    using 1(9) by simp
  have "\<forall>s\<in>set (np_arange k). \<forall>i\<in>set (np_arange nc). getitem2 scen s i = Inr (x s i)"
    using sh by (simp add: set_np_arange getitem2_def x_def)
  then show ?case using 1(10) m k by (auto simp: np_arange_nonempty)
qed

lemmas eval_words = word_reader_split str_split_def is_space_def emit_def
lemmas eval_parse = next_word_def py_int_def py_float_def signed_def digit_of_def digits_value_def
  non_finite_def lower_def number_def exponent_def is_exp_mark_def is_point_def
lemmas eval_arrays = np_reshape2_def np_transpose_def np_arange_def np_array2_def getitem2_def
  generate_scenarios_def np_random_normal_def py_max2_def max_of_sums_def
  float_mul_def float_value_def signbit_def np_array_int_def fits_int64_def

lemma words_example_a:
  "word_reader ''1 2 7 10 3 4 1 2'' = [''1'', ''2'', ''7'', ''10'', ''3'', ''4'', ''1'', ''2'']"
  by (simp add: eval_words)

lemma read_example_a:
  "read_dataset ''1 2 7 10 3 4 1 2'' 2 (Float (1 / 5)) (\<lambda>n. if n = 2 then 5 else 0)
     = Inr (\<lparr>I = [0, 1], J = [0], S = [0, 1], demands = [Float 3, Float 4],
              scenarios = NDArray [2, 2] [3, 4, 6, 4], capacities = [7], fixed_costs = [10],
              shipment_costs = NDArray [2, 1] [Float 1, Float 2], max_demand_sum_over_scenario = 10\<rparr>,
            \<lambda>n. 0)"
  unfolding read_dataset_def words_example_a
  by (simp add: eval_parse eval_arrays numeral_2_eq_2 upt_rec)

theorem max_demand_sum_over_scenario_correct_witness:
  "let d = \<lparr>I = [0, 1], J = [0], S = [0, 1], demands = [Float 3, Float 4],
              scenarios = NDArray [2, 2] [3, 4, 6, 4], capacities = [7], fixed_costs = [10],
              shipment_costs = NDArray [2, 1] [Float 1, Float 2], max_demand_sum_over_scenario = 10\<rparr>
   in read_dataset ''1 2 7 10 3 4 1 2'' 2 (Float (1 / 5)) (\<lambda>n. if n = 2 then 5 else 0) = Inr (d, \<lambda>n. 0)
      \<and> S d \<noteq> []
      \<and> (\<exists>x. (\<forall>s\<in>set (S d). \<forall>i\<in>set (I d). getitem2 (scenarios d) s i = Inr (x s i)) \<and>
              max_demand_sum_over_scenario d = Max ((\<lambda>s. \<Sum>i\<leftarrow>I d. x s i) ` set (S d)))"
  unfolding Let_def
  using read_example_a max_demand_sum_over_scenario_correct [OF read_example_a]
  by blast

subsection \<open>Reshaping and transposing the cost matrix\<close>

lemma length_np_array_int: "length (np_array_int xs) = length xs"
  by (simp add: np_array_int_def)

lemma np_array_int_exact: "list_all fits_int64 xs \<Longrightarrow> np_array_int xs = xs"
  by (simp add: np_array_int_def)

lemma np_reshape2_Inr:
  assumes "np_reshape2 xs d0 d1 = Inr cm" and "length xs = nat (d0 * d1)"
  shows "shape cm = [nat d0, nat d1]" and "flat cm = xs" and "nat (d0 * d1) = nat d0 * nat d1"
proof -
  have nn: "\<not> (d0 < 0 \<and> d1 < 0)" using assms(1) by (auto simp: np_reshape2_def)
  have len0: "d0 < 0 \<or> d1 < 0 \<Longrightarrow> length xs = 0"
  proof -
    assume "d0 < 0 \<or> d1 < 0"
    then have "d0 * d1 \<le> 0" using nn by (auto simp: mult_le_0_iff)
    then show ?thesis using assms(2) by simp
  qed
  show "shape cm = [nat d0, nat d1]"
    using assms(1) len0 by (auto simp: np_reshape2_def Let_def split: if_splits)
  show "flat cm = xs"
    using assms(1) by (auto simp: np_reshape2_def Let_def split: if_splits)
  show "nat (d0 * d1) = nat d0 * nat d1"
  proof (cases "0 \<le> d0")
    case True
    then show ?thesis by (simp add: nat_mult_distrib)
  next
    case False
    then have "0 \<le> d1" using nn by simp
    then show ?thesis using nat_mult_distrib [of d1 d0] by (simp add: mult.commute)
  qed
qed

lemma np_transpose_shape:
  assumes "shape a = [r, c]"
  shows "shape (np_transpose a) = [c, r]"
    and "length (flat (np_transpose a)) = c * r"
    and "\<forall>i<c. \<forall>j<r. flat (np_transpose a) ! (i * r + j) = flat a ! (j * c + i)"
proof -
  let ?rows = "map (\<lambda>i. map (\<lambda>j. flat a ! (j * c + i)) [0..<r]) [0..<c]"
  have t: "np_transpose a = NDArray [c, r] (concat ?rows)"
    using assms by (simp add: np_transpose_def)
  have "\<forall>i<length ?rows. length (?rows ! i) = r" by simp
  note cu = concat_uniform [OF this]
  show "shape (np_transpose a) = [c, r]" using t by simp
  show "length (flat (np_transpose a)) = c * r" using t cu by simp
  show "\<forall>i<c. \<forall>j<r. flat (np_transpose a) ! (i * r + j) = flat a ! (j * c + i)"
    using t cu by simp
qed

lemma getitem2_transpose:
  assumes "shape a = [r, c]" and "i < c" and "j < r"
  shows "getitem2 (np_transpose a) i j = getitem2 a j i"
  using np_transpose_shape [OF assms(1)] assms by (simp add: getitem2_def)

text \<open>
  Claim C10. The index sets and the array shapes of every instance that \<open>read_dataset\<close>
  returns agree: with \<open>num_facilities\<close> and \<open>num_customers\<close> the first two integers of the
  file, \<open>I\<close> is \<open>0..num_customers-1\<close>, \<open>J\<close> is \<open>0..num_facilities-1\<close>, \<open>S\<close> is
  \<open>0..num_scenarios-1\<close>, \<open>demands\<close> has length \<open>|I|\<close>, \<open>capacities\<close> and \<open>fixed_costs\<close> have
  length \<open>|J|\<close>, \<open>scenarios\<close> has shape \<open>|S| \<times> |I|\<close> and \<open>shipment_costs\<close> has shape
  \<open>|I| \<times> |J|\<close>, so that every index drawn from \<open>I\<close>, \<open>J\<close>, \<open>S\<close> is in range for the arrays
  it indexes.
\<close>

theorem index_sets_and_shapes_consistent:
  assumes "read_dataset content k vf g = Inr (d, g')"
  shows "\<exists>w1 w2 rest nf nc.
           word_reader content = w1 # w2 # rest \<and> py_int w1 = Inr nf \<and> py_int w2 = Inr nc \<and>
           I d = [0..<nat nc] \<and> J d = [0..<nat nf] \<and> S d = [0..<nat k] \<and>
           length (demands d) = length (I d) \<and>
           length (capacities d) = length (J d) \<and>
           length (fixed_costs d) = length (J d) \<and>
           shape (scenarios d) = [length (S d), length (I d)] \<and>
           length (flat (scenarios d)) = length (S d) * length (I d) \<and>
           shape (shipment_costs d) = [length (I d), length (J d)] \<and>
           length (flat (shipment_costs d)) = length (I d) * length (J d) \<and>
           (\<forall>i\<in>set (I d). i < length (demands d)) \<and>
           (\<forall>j\<in>set (J d). j < length (capacities d) \<and> j < length (fixed_costs d)) \<and>
           (\<forall>s\<in>set (S d). \<forall>i\<in>set (I d). \<exists>x. getitem2 (scenarios d) s i = Inr x) \<and>
           (\<forall>i\<in>set (I d). \<forall>j\<in>set (J d). \<exists>x. getitem2 (shipment_costs d) i j = Inr x)"
proof (rule read_dataset_Inr [OF assms], goal_cases)
  case (1 w1 w2 rest nf nc caps fcs dem costs cm scen m)
  have k: "1 \<le> k" using max_of_sums_nonempty [OF 1(9)] by (simp add: np_arange_nonempty)
  have n: "length dem = nat nc" using read_floats_Inr [OF 1(5)] by simp
  have fc: "length caps = nat nf" "length fcs = nat nf" using read_facilities_Inr [OF 1(4)] by simp_all
  have lc: "length costs = nat (nf * nc)" using read_floats_Inr [OF 1(6)] by simp
  note rs = np_reshape2_Inr [OF 1(7) lc]
  note tr = np_transpose_shape [OF rs(1)]
  have sh: "shape scen = [nat k, nat nc]" "length (flat scen) = nat k * nat nc"
    using generate_scenarios_Inr(1,2) [OF 1(8) k] n by simp_all
  have a: "I d = [0..<nat nc]" "J d = [0..<nat nf]" "S d = [0..<nat k]"
    "demands d = dem" "capacities d = np_array_int caps" "fixed_costs d = np_array_int fcs"
    "scenarios d = scen"
    "shipment_costs d = np_transpose cm"
    using 1(10) by (simp_all add: np_arange_def)
  have "\<forall>s\<in>set (S d). \<forall>i\<in>set (I d). \<exists>x. getitem2 (scenarios d) s i = Inr x"
    using a sh by (simp add: getitem2_def)
  moreover have "\<forall>i\<in>set (I d). \<forall>j\<in>set (J d). \<exists>x. getitem2 (shipment_costs d) i j = Inr x"
    using a tr(1) by (simp add: getitem2_def)
  ultimately show ?case
    using 1(1,2,3) a n fc sh tr(1,2) by (simp add: length_np_array_int)
qed

theorem index_sets_and_shapes_consistent_witness:
  "let d = \<lparr>I = [0, 1], J = [0], S = [0, 1], demands = [Float 3, Float 4],
              scenarios = NDArray [2, 2] [3, 4, 6, 4], capacities = [7], fixed_costs = [10],
              shipment_costs = NDArray [2, 1] [Float 1, Float 2], max_demand_sum_over_scenario = 10\<rparr>
   in read_dataset ''1 2 7 10 3 4 1 2'' 2 (Float (1 / 5)) (\<lambda>n. if n = 2 then 5 else 0) = Inr (d, \<lambda>n. 0)
      \<and> (\<exists>w1 w2 rest nf nc.
           word_reader ''1 2 7 10 3 4 1 2'' = w1 # w2 # rest \<and> py_int w1 = Inr nf \<and> py_int w2 = Inr nc \<and>
           I d = [0..<nat nc] \<and> J d = [0..<nat nf] \<and> S d = [0..<nat 2] \<and>
           length (demands d) = length (I d) \<and>
           length (capacities d) = length (J d) \<and>
           length (fixed_costs d) = length (J d) \<and>
           shape (scenarios d) = [length (S d), length (I d)] \<and>
           length (flat (scenarios d)) = length (S d) * length (I d) \<and>
           shape (shipment_costs d) = [length (I d), length (J d)] \<and>
           length (flat (shipment_costs d)) = length (I d) * length (J d) \<and>
           (\<forall>i\<in>set (I d). i < length (demands d)) \<and>
           (\<forall>j\<in>set (J d). j < length (capacities d) \<and> j < length (fixed_costs d)) \<and>
           (\<forall>s\<in>set (S d). \<forall>i\<in>set (I d). \<exists>x. getitem2 (scenarios d) s i = Inr x) \<and>
           (\<forall>i\<in>set (I d). \<forall>j\<in>set (J d). \<exists>x. getitem2 (shipment_costs d) i j = Inr x))"
  unfolding Let_def
  using read_example_a index_sets_and_shapes_consistent [OF read_example_a]
  by blast

text \<open>
  Claim C5. The shipment-cost matrix of the instance is customer by facility: the
  \<open>num_facilities * num_customers\<close> cost words that follow the demands are read in file order
  as the rows of a \<open>num_facilities \<times> num_customers\<close> matrix \<open>cm\<close>, and \<open>shipment_costs\<close> is its
  transpose, so \<open>shipment_costs[i, j]\<close> is the cost word number \<open>j * num_customers + i\<close>: the
  unit cost of serving customer \<open>i\<close> from facility \<open>j\<close>.
\<close>

theorem shipment_costs_customer_by_facility:
  assumes "read_dataset content k vf g = Inr (d, g')"
  shows "\<exists>w1 w2 rest nf nc cm.
           word_reader content = w1 # w2 # rest \<and> py_int w1 = Inr nf \<and> py_int w2 = Inr nc \<and>
           shape cm = [nat nf, nat nc] \<and>
           length (flat cm) = nat nf * nat nc \<and>
           (\<forall>p<nat nf * nat nc. py_float (rest ! (2 * nat nf + nat nc + p)) = Inr (flat cm ! p)) \<and>
           shipment_costs d = np_transpose cm \<and>
           shape (shipment_costs d) = [nat nc, nat nf] \<and>
           (\<forall>i<nat nc. \<forall>j<nat nf.
              getitem2 (shipment_costs d) i j = getitem2 cm j i \<and>
              getitem2 (shipment_costs d) i j
                = py_float (rest ! (2 * nat nf + nat nc + (j * nat nc + i))))"
proof (rule read_dataset_Inr [OF assms], goal_cases)
  case (1 w1 w2 rest nf nc caps fcs dem costs cm scen m)
  note rf = read_floats_Inr [OF 1(6)]
  have lc: "length costs = nat (nf * nc)" using rf by simp
  note rs = np_reshape2_Inr [OF 1(7) lc]
  note tr = np_transpose_shape [OF rs(1)]
  have sc: "shipment_costs d = np_transpose cm" using 1(10) by simp
  have len: "length (flat cm) = nat nf * nat nc" using rs lc by simp
  have fl: "\<forall>p<nat nf * nat nc. py_float (rest ! (2 * nat nf + nat nc + p)) = Inr (flat cm ! p)"
  proof (intro allI impI)
    fix p assume p: "p < nat nf * nat nc"
    then have "py_float (drop (2 * nat nf + nat nc) rest ! p) = Inr (costs ! p)"
      using rf rs(3) by simp
    moreover have "nat nf * nat nc \<le> length rest - (2 * nat nf + nat nc)"
      using rf rs(3) by simp
    then have "2 * nat nf + nat nc + p < length rest"
      using p by linarith
    ultimately show "py_float (rest ! (2 * nat nf + nat nc + p)) = Inr (flat cm ! p)"
      using rs(2) by simp
  qed
  have "\<forall>i<nat nc. \<forall>j<nat nf.
          getitem2 (shipment_costs d) i j = getitem2 cm j i \<and>
          getitem2 (shipment_costs d) i j
            = py_float (rest ! (2 * nat nf + nat nc + (j * nat nc + i)))"
  proof (intro allI impI)
    fix i j assume i: "i < nat nc" and j: "j < nat nf"
    have a: "getitem2 (shipment_costs d) i j = getitem2 cm j i"
      using getitem2_transpose [OF rs(1) i j] sc by simp
    have "j * nat nc + i < nat nf * nat nc"
    proof -
      have "j * nat nc + i < j * nat nc + nat nc" using i by simp
      also have "\<dots> = Suc j * nat nc" by simp
      also have "\<dots> \<le> nat nf * nat nc" using j by (intro mult_le_mono1) simp
      finally show ?thesis .
    qed
    then have "py_float (rest ! (2 * nat nf + nat nc + (j * nat nc + i)))
                 = Inr (flat cm ! (j * nat nc + i))"
      using fl by blast
    moreover have "getitem2 cm j i = Inr (flat cm ! (j * nat nc + i))"
      using rs(1) i j by (simp add: getitem2_def)
    ultimately show "getitem2 (shipment_costs d) i j = getitem2 cm j i \<and>
          getitem2 (shipment_costs d) i j
            = py_float (rest ! (2 * nat nf + nat nc + (j * nat nc + i)))"
      using a by simp
  qed
  moreover have "shape (shipment_costs d) = [nat nc, nat nf]" using tr(1) sc by simp
  ultimately show ?case
    using 1(1,2,3) rs(1) len fl sc by blast
qed

lemma read_floats_numeral:
  "read_floats (numeral v) word =
     bind (next_word word) (\<lambda>(w, word1).
     bind (py_float w) (\<lambda>x.
     bind (read_floats (pred_numeral v) word1) (\<lambda>(xs, word2).
     Inr (x # xs, word2))))"
  by (simp add: numeral_eq_Suc)

lemma read_facilities_numeral:
  "read_facilities (numeral v) word =
     bind (next_word word) (\<lambda>(w1, word1).
     bind (py_int w1) (\<lambda>capacity.
     bind (next_word word1) (\<lambda>(w2, word2).
     bind (py_int w2) (\<lambda>fixed_cost.
     bind (read_facilities (pred_numeral v) word2) (\<lambda>((cs, fs), word3).
     Inr ((capacity # cs, fixed_cost # fs), word3))))))"
  by (simp add: numeral_eq_Suc)

lemma sample_rows_numeral:
  "sample_rows (numeral v) dem variance_factor g =
     bind (sample_row dem variance_factor g) (\<lambda>(row, g1).
     bind (sample_rows (pred_numeral v) dem variance_factor g1) (\<lambda>(rows, g2).
     Inr (row # rows, g2)))"
  by (simp add: numeral_eq_Suc)

lemmas eval_loops = read_floats_numeral read_facilities_numeral sample_rows_numeral upt_rec

lemma words_example_b:
  "word_reader ''2 3 7 10 8 20 1 2 3 11 12 13 21 22 23''
     = [''2'', ''3'', ''7'', ''10'', ''8'', ''20'', ''1'', ''2'', ''3'',
        ''11'', ''12'', ''13'', ''21'', ''22'', ''23'']"
  by (simp add: eval_words)

lemma read_example_b:
  "read_dataset ''2 3 7 10 8 20 1 2 3 11 12 13 21 22 23'' 1 (Float (1 / 5)) (\<lambda>n. 0)
     = Inr (\<lparr>I = [0, 1, 2], J = [0, 1], S = [0], demands = [Float 1, Float 2, Float 3],
              scenarios = NDArray [1, 3] [1, 2, 3], capacities = [7, 8], fixed_costs = [10, 20],
              shipment_costs = NDArray [3, 2] [Float 11, Float 21, Float 12, Float 22, Float 13, Float 23],
              max_demand_sum_over_scenario = 6\<rparr>,
            \<lambda>n. 0)"
  unfolding read_dataset_def words_example_b
  by (simp add: eval_parse eval_arrays eval_loops)

theorem shipment_costs_customer_by_facility_witness:
  "let d = \<lparr>I = [0, 1, 2], J = [0, 1], S = [0], demands = [Float 1, Float 2, Float 3],
              scenarios = NDArray [1, 3] [1, 2, 3], capacities = [7, 8], fixed_costs = [10, 20],
              shipment_costs = NDArray [3, 2] [Float 11, Float 21, Float 12, Float 22, Float 13, Float 23],
              max_demand_sum_over_scenario = 6\<rparr>
   in read_dataset ''2 3 7 10 8 20 1 2 3 11 12 13 21 22 23'' 1 (Float (1 / 5)) (\<lambda>n. 0) = Inr (d, \<lambda>n. 0)
      \<and> getitem2 (shipment_costs d) 2 1 = Inr (Float 23)
      \<and> (\<exists>w1 w2 rest nf nc cm.
           word_reader ''2 3 7 10 8 20 1 2 3 11 12 13 21 22 23'' = w1 # w2 # rest \<and> py_int w1 = Inr nf \<and> py_int w2 = Inr nc \<and>
           shape cm = [nat nf, nat nc] \<and>
           length (flat cm) = nat nf * nat nc \<and>
           (\<forall>p<nat nf * nat nc. py_float (rest ! (2 * nat nf + nat nc + p)) = Inr (flat cm ! p)) \<and>
           shipment_costs d = np_transpose cm \<and>
           shape (shipment_costs d) = [nat nc, nat nf] \<and>
           (\<forall>i<nat nc. \<forall>j<nat nf.
              getitem2 (shipment_costs d) i j = getitem2 cm j i \<and>
              getitem2 (shipment_costs d) i j
                = py_float (rest ! (2 * nat nf + nat nc + (j * nat nc + i)))))"
proof -
  have "getitem2 (NDArray [3, 2] [Float 11, Float 21, Float 12, Float 22, Float 13, Float 23]) 2 1
          = Inr (Float 23)"
    by (simp add: getitem2_def)
  then show ?thesis
    unfolding Let_def
    using read_example_b shipment_costs_customer_by_facility [OF read_example_b]
    by simp
qed

text \<open>
  Claim C8. Parsing does not depend on the line structure of the file: two files that split
  into the same sequence of whitespace-separated words give the same result of
  \<open>read_dataset\<close> from the same generator state, and whatever the generator states, the
  fields that do not depend on sampling (\<open>I\<close>, \<open>J\<close>, \<open>S\<close>, \<open>demands\<close>, \<open>capacities\<close>,
  \<open>fixed_costs\<close>, \<open>shipment_costs\<close>) are identical.
\<close>

theorem parse_insensitive_to_line_structure:
  assumes "str_split c1 = str_split c2"
  shows "read_dataset c1 k vf g = read_dataset c2 k vf g \<and>
         (\<forall>g1 g2 d1 h1 d2 h2.
            read_dataset c1 k vf g1 = Inr (d1, h1) \<longrightarrow>
            read_dataset c2 k vf g2 = Inr (d2, h2) \<longrightarrow>
              I d1 = I d2 \<and> J d1 = J d2 \<and> S d1 = S d2 \<and> demands d1 = demands d2 \<and>
              capacities d1 = capacities d2 \<and> fixed_costs d1 = fixed_costs d2 \<and>
              shipment_costs d1 = shipment_costs d2)"
proof -
  have w: "word_reader c1 = word_reader c2" using assms by (simp add: word_reader_split)
  have same: "read_dataset c1 k vf g = read_dataset c2 k vf g"
    by (simp add: read_dataset_def w)
  have det: "I d1 = I d2 \<and> J d1 = J d2 \<and> S d1 = S d2 \<and> demands d1 = demands d2 \<and>
              capacities d1 = capacities d2 \<and> fixed_costs d1 = fixed_costs d2 \<and>
              shipment_costs d1 = shipment_costs d2"
    if a: "read_dataset c1 k vf g1 = Inr (d1, h1)" and b: "read_dataset c2 k vf g2 = Inr (d2, h2)"
    for g1 g2 d1 h1 d2 h2
  proof (rule read_dataset_Inr [OF a], goal_cases)
    case A: (1 w1 w2 rest nf nc caps fcs dem costs cm scen m)
    show ?case
    proof (rule read_dataset_Inr [OF b], goal_cases)
      case B: (1 w1' w2' rest' nf' nc' caps' fcs' dem' costs' cm' scen' m')
      have e: "w1' = w1" "w2' = w2" "rest' = rest" using A(1) B(1) w by simp_all
      have n: "nf' = nf" "nc' = nc" using A(2,3) B(2,3) e by simp_all
      have "caps' = caps" "fcs' = fcs" using A(4) B(4) e n by simp_all
      moreover have "dem' = dem" using A(5) B(5) e n by simp
      moreover have "costs' = costs" using A(6) B(6) e n by simp
      then have "cm' = cm" using A(7) B(7) n by simp
      ultimately show ?case using A(10) B(10) n by simp
    qed
  qed
  show ?thesis using same det by blast
qed

lemma words_example_a_lines:
  "str_split (''1 2'' @ [CHR 0x0A] @ ''7 10'' @ [CHR 0x0D, CHR 0x0A, CHR 0x0A]
                @ ''3   4'' @ [CHR 0x09] @ ''1'' @ [CHR 0x0D] @ ''2'' @ [CHR 0x0A])
     = [''1'', ''2'', ''7'', ''10'', ''3'', ''4'', ''1'', ''2'']"
  by (simp add: eval_words)

lemma read_example_a_zero:
  "read_dataset ''1 2 7 10 3 4 1 2'' 2 (Float (1 / 5)) (\<lambda>n. 0)
     = Inr (\<lparr>I = [0, 1], J = [0], S = [0, 1], demands = [Float 3, Float 4],
              scenarios = NDArray [2, 2] [3, 4, 3, 4], capacities = [7], fixed_costs = [10],
              shipment_costs = NDArray [2, 1] [Float 1, Float 2], max_demand_sum_over_scenario = 7\<rparr>,
            \<lambda>n. 0)"
  unfolding read_dataset_def words_example_a
  by (simp add: eval_parse eval_arrays eval_loops)

theorem parse_insensitive_to_line_structure_witness:
  "let c1 = ''1 2 7 10 3 4 1 2'';
       c2 = ''1 2'' @ [CHR 0x0A] @ ''7 10'' @ [CHR 0x0D, CHR 0x0A, CHR 0x0A]
              @ ''3   4'' @ [CHR 0x09] @ ''1'' @ [CHR 0x0D] @ ''2'' @ [CHR 0x0A];
       d1 = \<lparr>I = [0, 1], J = [0], S = [0, 1], demands = [Float 3, Float 4],
              scenarios = NDArray [2, 2] [3, 4, 3, 4], capacities = [7], fixed_costs = [10],
              shipment_costs = NDArray [2, 1] [Float 1, Float 2], max_demand_sum_over_scenario = 7\<rparr>;
       d2 = \<lparr>I = [0, 1], J = [0], S = [0, 1], demands = [Float 3, Float 4],
              scenarios = NDArray [2, 2] [3, 4, 6, 4], capacities = [7], fixed_costs = [10],
              shipment_costs = NDArray [2, 1] [Float 1, Float 2], max_demand_sum_over_scenario = 10\<rparr>
   in str_split c1 = str_split c2
      \<and> read_dataset c1 2 (Float (1 / 5)) (\<lambda>n. 0) = Inr (d1, \<lambda>n. 0)
      \<and> read_dataset c2 2 (Float (1 / 5)) (\<lambda>n. if n = 2 then 5 else 0) = Inr (d2, \<lambda>n. 0)
      \<and> I d1 = I d2 \<and> J d1 = J d2 \<and> S d1 = S d2 \<and> demands d1 = demands d2
      \<and> capacities d1 = capacities d2 \<and> fixed_costs d1 = fixed_costs d2
      \<and> shipment_costs d1 = shipment_costs d2"
proof -
  have h: "str_split ''1 2 7 10 3 4 1 2''
     = str_split (''1 2'' @ [CHR 0x0A] @ ''7 10'' @ [CHR 0x0D, CHR 0x0A, CHR 0x0A]
                    @ ''3   4'' @ [CHR 0x09] @ ''1'' @ [CHR 0x0D] @ ''2'' @ [CHR 0x0A])"
    unfolding words_example_a_lines using words_example_a by (simp add: word_reader_split)
  show ?thesis
    unfolding Let_def
    using h parse_insensitive_to_line_structure [OF h, of 2 "Float (1 / 5)" "\<lambda>n. if n = 2 then 5 else 0"]
      read_example_a read_example_a_zero
    by simp
qed

subsection \<open>What the reader rejects\<close>

text \<open>
  Claim C1, as amended. \<open>read_dataset\<close> validates nothing itself. Instance data that holds
  fewer words than the declared dimensions require (two per facility, one per customer, one
  per entry of the cost matrix) is rejected at construction: the call raises and no \<open>Data\<close> is
  returned, so no solving begins. Negative capacities are not rejected: whenever a \<open>Data\<close> is
  returned, its capacities are the array that \<^verbatim>\<open>np.array\<close> builds from the integers read, and
  when these all fit a signed 64-bit integer they are stored as read, whatever their sign.
\<close>

theorem too_few_words_rejected:
  assumes "word_reader content = w1 # w2 # rest" and "py_int w1 = Inr nf" and "py_int w2 = Inr nc"
  shows "(length rest < 2 * nat nf + nat nc + nat (nf * nc) \<longrightarrow>
            (\<exists>e. read_dataset content k vf g = Inl e)) \<and>
         (\<forall>d g'. read_dataset content k vf g = Inr (d, g') \<longrightarrow>
            (\<exists>cs. length cs = nat nf \<and>
                  (\<forall>j<nat nf. py_int (rest ! (2 * j)) = Inr (cs ! j)) \<and>
                  capacities d = np_array_int cs \<and>
                  (list_all fits_int64 cs \<longrightarrow> capacities d = cs)))"
proof -
  have ok: "2 * nat nf + nat nc + nat (nf * nc) \<le> length rest \<and>
            (\<exists>cs. length cs = nat nf \<and>
                  (\<forall>j<nat nf. py_int (rest ! (2 * j)) = Inr (cs ! j)) \<and>
                  capacities d = np_array_int cs \<and>
                  (list_all fits_int64 cs \<longrightarrow> capacities d = cs))"
    if r: "read_dataset content k vf g = Inr (d, g')" for d g'
  proof (rule read_dataset_Inr [OF r], goal_cases)
    case (1 w1' w2' rest' nf' nc' caps fcs dem costs cm scen m)
    have e: "rest' = rest" "nf' = nf" "nc' = nc" using 1(1,2,3) assms by simp_all
    note a = read_facilities_Inr [OF 1(4)]
    note b = read_floats_Inr [OF 1(5)]
    note c = read_floats_Inr [OF 1(6)]
    have "2 * nat nf' \<le> length rest'" using a by simp
    moreover have "nat nc' \<le> length rest' - 2 * nat nf'" using b by simp
    moreover have "nat (nf' * nc') \<le> length rest' - (2 * nat nf' + nat nc')" using c by simp
    ultimately have "2 * nat nf' + nat nc' + nat (nf' * nc') \<le> length rest'" by linarith
    then have len: "2 * nat nf + nat nc + nat (nf * nc) \<le> length rest"
      using e by simp
    have cd: "capacities d = np_array_int caps" using 1(10) by simp
    have "length caps = nat nf \<and>
          (\<forall>j<nat nf. py_int (rest ! (2 * j)) = Inr (caps ! j)) \<and>
          capacities d = np_array_int caps \<and>
          (list_all fits_int64 caps \<longrightarrow> capacities d = caps)"
      using a e cd by (simp add: np_array_int_exact)
    then show ?case using len by blast
  qed
  have "\<exists>e. read_dataset content k vf g = Inl e"
    if short: "length rest < 2 * nat nf + nat nc + nat (nf * nc)"
  proof (cases "read_dataset content k vf g")
    case (Inl e)
    then show ?thesis by simp
  next
    case (Inr p)
    obtain d g' where "p = (d, g')" by (cases p)
    then show ?thesis using ok [of d g'] Inr short by simp
  qed
  then show ?thesis using ok by blast
qed

lemma words_example_short:
  "word_reader ''1 2 7 10 3 4 1'' = [''1'', ''2'', ''7'', ''10'', ''3'', ''4'', ''1'']"
  by (simp add: eval_words)

lemma words_example_negative:
  "word_reader ''1 1 -5 10 5 2'' = [''1'', ''1'', ''-5'', ''10'', ''5'', ''2'']"
  by (simp add: eval_words)

lemma words_example_surplus:
  "word_reader ''1 1 5 10 5 2 99 98'' = [''1'', ''1'', ''5'', ''10'', ''5'', ''2'', ''99'', ''98'']"
  by (simp add: eval_words)

lemma read_example_negative:
  "read_dataset ''1 1 -5 10 5 2'' 1 (Float (1 / 5)) (\<lambda>n. 0)
     = Inr (\<lparr>I = [0], J = [0], S = [0], demands = [Float 5],
              scenarios = NDArray [1, 1] [5], capacities = [- 5], fixed_costs = [10],
              shipment_costs = NDArray [1, 1] [Float 2], max_demand_sum_over_scenario = 5\<rparr>,
            \<lambda>n. 0)"
  unfolding read_dataset_def words_example_negative
  by (simp add: eval_parse eval_arrays eval_loops)

lemma read_example_surplus:
  "read_dataset ''1 1 5 10 5 2 99 98'' 1 (Float (1 / 5)) (\<lambda>n. 0)
     = Inr (\<lparr>I = [0], J = [0], S = [0], demands = [Float 5],
              scenarios = NDArray [1, 1] [5], capacities = [5], fixed_costs = [10],
              shipment_costs = NDArray [1, 1] [Float 2], max_demand_sum_over_scenario = 5\<rparr>,
            \<lambda>n. 0)"
  unfolding read_dataset_def words_example_surplus
  by (simp add: eval_parse eval_arrays eval_loops)

theorem too_few_words_rejected_witness:
  "word_reader ''1 2 7 10 3 4 1'' = ''1'' # ''2'' # [''7'', ''10'', ''3'', ''4'', ''1'']
   \<and> py_int ''1'' = Inr 1 \<and> py_int ''2'' = Inr 2
   \<and> length [''7'', ''10'', ''3'', ''4'', ''1''] < 2 * nat 1 + nat 2 + nat (1 * 2)
   \<and> read_dataset ''1 2 7 10 3 4 1'' 2 (Float (1 / 5)) (\<lambda>n. 0) = Inl StopIteration
   \<and> word_reader ''1 1 -5 10 5 2'' = ''1'' # ''1'' # [''-5'', ''10'', ''5'', ''2'']
   \<and> read_dataset ''1 1 -5 10 5 2'' 1 (Float (1 / 5)) (\<lambda>n. 0)
       = Inr (\<lparr>I = [0], J = [0], S = [0], demands = [Float 5],
              scenarios = NDArray [1, 1] [5], capacities = [- 5], fixed_costs = [10],
              shipment_costs = NDArray [1, 1] [Float 2], max_demand_sum_over_scenario = 5\<rparr>,
            \<lambda>n. 0)
   \<and> py_int ([''-5'', ''10'', ''5'', ''2''] ! (2 * 0)) = Inr (- 5)
   \<and> list_all fits_int64 [- 5]"
proof -
  have a: "py_int ''1'' = Inr 1" "py_int ''2'' = Inr 2" by (simp_all add: eval_parse)
  have s: "read_dataset ''1 2 7 10 3 4 1'' 2 (Float (1 / 5)) (\<lambda>n. 0) = Inl StopIteration"
    unfolding read_dataset_def words_example_short
    by (simp add: eval_parse eval_arrays eval_loops)
  have "\<exists>e. read_dataset ''1 2 7 10 3 4 1'' 2 (Float (1 / 5)) (\<lambda>n. 0) = Inl e"
    using too_few_words_rejected [OF _ a, of "''1 2 7 10 3 4 1''" _ 2 "Float (1 / 5)" "\<lambda>n. 0"]
      words_example_short by simp
  moreover have "\<exists>cs. length cs = nat 1 \<and>
                  (\<forall>j<nat 1. py_int ([''-5'', ''10'', ''5'', ''2''] ! (2 * j)) = Inr (cs ! j)) \<and>
                  [- 5] = np_array_int cs \<and> (list_all fits_int64 cs \<longrightarrow> [- 5] = cs)"
    using too_few_words_rejected [OF _ a(1) a(1), of "''1 1 -5 10 5 2''" _ 1 "Float (1 / 5)" "\<lambda>n. 0"]
      words_example_negative read_example_negative by simp
  moreover have "py_int ''-5'' = Inr (- 5)" "list_all fits_int64 [- 5]"
    by (simp_all add: eval_parse fits_int64_def)
  ultimately show ?thesis
    using a s words_example_short words_example_negative read_example_negative by simp
qed

text \<open>
  The claim as stated fails: a file with a negative capacity is read into a \<open>Data\<close> whose
  capacity is negative, and a file with more cost words than the declared dimensions is read
  with the surplus ignored.
\<close>

theorem invalid_data_accepted_counterexample:
  "read_dataset ''1 1 -5 10 5 2'' 1 (Float (1 / 5)) (\<lambda>n. 0)
     = Inr (\<lparr>I = [0], J = [0], S = [0], demands = [Float 5],
              scenarios = NDArray [1, 1] [5], capacities = [- 5], fixed_costs = [10],
              shipment_costs = NDArray [1, 1] [Float 2], max_demand_sum_over_scenario = 5\<rparr>,
            \<lambda>n. 0)
   \<and> read_dataset ''1 1 5 10 5 2 99 98'' 1 (Float (1 / 5)) (\<lambda>n. 0)
     = Inr (\<lparr>I = [0], J = [0], S = [0], demands = [Float 5],
              scenarios = NDArray [1, 1] [5], capacities = [5], fixed_costs = [10],
              shipment_costs = NDArray [1, 1] [Float 2], max_demand_sum_over_scenario = 5\<rparr>,
            \<lambda>n. 0)"
  using read_example_negative read_example_surplus by simp

text \<open>
  An array that mixes a capacity of \<open>2\<^sup>6\<^sup>3\<close> or more with one below it is a \<^verbatim>\<open>float64\<close>
  array, and then a capacity is not stored as read: \<open>9223372036854775809\<close> becomes
  \<open>9223372036854775808\<close>.
\<close>

lemma words_example_wide:
  "word_reader ''2 1 9223372036854775809 1 -1 1 5 2 2''
     = [''2'', ''1'', ''9223372036854775809'', ''1'', ''-1'', ''1'', ''5'', ''2'', ''2'']"
  by (simp add: eval_words)

lemma excess_bits_small: "m < 2 ^ 53 \<Longrightarrow> excess_bits m = 0"
  by (subst excess_bits.simps) simp

lemma excess_bits_step: "2 ^ 53 \<le> m \<Longrightarrow> excess_bits m = Suc (excess_bits (m div 2))"
  by (subst excess_bits.simps) simp

lemma excess_bits_example: "excess_bits 9223372036854775809 = 11"
  by (simp add: excess_bits_small excess_bits_step)

lemma float64_of_example:
  "float64_of_int 9223372036854775809 = 9223372036854775808" "float64_of_int (- 1) = - 1"
  by (simp_all add: float64_of_int_def Let_def excess_bits_example excess_bits_small)

lemma read_example_wide:
  "read_dataset ''2 1 9223372036854775809 1 -1 1 5 2 2'' 1 (Float (1 / 5)) (\<lambda>n. 0)
     = Inr (\<lparr>I = [0], J = [0, 1], S = [0], demands = [Float 5],
              scenarios = NDArray [1, 1] [5],
              capacities = [9223372036854775808, - 1], fixed_costs = [1, 1],
              shipment_costs = NDArray [1, 2] [Float 2, Float 2],
              max_demand_sum_over_scenario = 5\<rparr>,
            \<lambda>n. 0)"
  unfolding read_dataset_def words_example_wide
  by (simp add: eval_parse eval_arrays eval_loops fits_uint64_def float64_of_example)

subsection \<open>Reproducibility of a run\<close>


























subsection \<open>Mutation of the instance\<close>









subsection \<open>The shape of the result\<close>












end
